theory Spec2Isabelle
  imports Main "HOL-Library.AList" "HOL-Library.Word"
begin

section \<open>JavaScript values\<close>

text \<open>
  The payload of a temporary token is typed \<^verbatim>\<open>any\<close> in
  \<^verbatim>\<open>src/services/auth/temp-token.ts\<close>. The values that matter here are told apart
  by JavaScript's truthiness test (\<^verbatim>\<open>!data\<close>); numbers are restricted to the integers
  and \<^verbatim>\<open>NaN\<close>, objects are lists of properties.
\<close>

datatype jsval =
    JUndefined
  | JNull
  | JBool bool
  | JNum int
  | JNaN
  | JStr string
  | JObj "(string \<times> jsval) list"

fun truthy :: "jsval \<Rightarrow> bool" where
  "truthy JUndefined = False"
| "truthy JNull = False"
| "truthy (JBool b) = b"
| "truthy (JNum n) = (n \<noteq> 0)"
| "truthy JNaN = False"
| "truthy (JStr s) = (s \<noteq> [])"
| "truthy (JObj ps) = True"

section \<open>Time values and thrown errors\<close>

text \<open>
  Times are milliseconds since the epoch, as \<^verbatim>\<open>Date.now()\<close> returns them.
  \<^verbatim>\<open>new Date(t).toISOString()\<close> throws a \<^verbatim>\<open>RangeError\<close> when \<open>t\<close> is not a
  valid time value, that is when it lies more than 8.64e15 ms from the epoch. The
  source calls it in its log statements; the text it produces is only printed, so the
  model keeps the one observable effect: whether the call throws.
\<close>

datatype error = RangeError

definition toISOString_throws :: "int \<Rightarrow> bool" where
  "toISOString_throws t = (t < - 8640000000000000 \<or> 8640000000000000 < t)"

section \<open>The two maps and the timer queue\<close>

text \<open>
  \<^verbatim>\<open>tempTokenStore = new Map<string, { data: any; expiresAt: number }>()\<close> and
  \<^verbatim>\<open>consumedTokens = new Map<string, { data: any; consumedAt: number }>()\<close>.
  A JavaScript \<^verbatim>\<open>Map\<close> keeps its entries in insertion order: an association list
  with \<^verbatim>\<open>get\<close>, \<^verbatim>\<open>set\<close>, \<^verbatim>\<open>delete\<close> and \<^verbatim>\<open>size\<close>.
\<close>

record stored =
  data :: jsval
  expiresAt :: int

record consumed =
  data :: jsval
  consumedAt :: int

definition Map_get :: "(string \<times> 'v) list \<Rightarrow> string \<Rightarrow> 'v option" where
  "Map_get m k = map_of m k"

definition Map_set :: "string \<Rightarrow> 'v \<Rightarrow> (string \<times> 'v) list \<Rightarrow> (string \<times> 'v) list" where
  "Map_set k v m = AList.update k v m"

definition Map_delete :: "string \<Rightarrow> (string \<times> 'v) list \<Rightarrow> (string \<times> 'v) list" where
  "Map_delete k m = AList.delete k m"

definition Map_size :: "(string \<times> 'v) list \<Rightarrow> nat" where
  "Map_size m = length m"

text \<open>
  The two closures handed to \<^verbatim>\<open>setTimeout\<close>:
  \<^verbatim>\<open>() => { tempTokenStore.delete(token) }\<close> and
  \<^verbatim>\<open>() => { consumedTokens.delete(token) }\<close>. A pending timer is the closure with the
  time from which it may run.
\<close>

datatype timer_callback = DeleteTemp string | DeleteConsumed string

record timer =
  due :: int
  callback :: timer_callback

text \<open>
  The module state: the two maps, the pending timers and the clock that
  \<^verbatim>\<open>Date.now()\<close> reads. A call of one exported function runs to completion without
  the clock moving; time passes between calls (event \<open>Advance\<close> below).
\<close>

record state =
  tempTokenStore :: "(string \<times> stored) list"
  consumedTokens :: "(string \<times> consumed) list"
  timers :: "timer list"
  now :: int

definition CONSUMED_TOKEN_RETENTION :: int where
  "CONSUMED_TOKEN_RETENTION = 60 * 1000"

definition TOKEN_EXPIRY :: int where
  "TOKEN_EXPIRY = 15 * 60 * 1000"

definition setTimeout :: "timer_callback \<Rightarrow> int \<Rightarrow> state \<Rightarrow> state" where
  "setTimeout cb delay s = s\<lparr>timers := timers s @ [\<lparr>due = now s + delay, callback = cb\<rparr>]\<rparr>"

section \<open>generateTempToken\<close>

text \<open>
  \<^verbatim>\<open>crypto.randomBytes(32).toString('hex')\<close>: every byte becomes two lowercase
  hexadecimal digits, high nibble first. The bytes drawn from the random source are an
  argument of the model.
\<close>

definition hex_digit :: "nat \<Rightarrow> char" where
  "hex_digit n = ''0123456789abcdef'' ! (n mod 16)"

definition byte_hex :: "8 word \<Rightarrow> string" where
  "byte_hex b = [hex_digit (unat b div 16), hex_digit (unat b mod 16)]"

definition Buffer_toString_hex :: "8 word list \<Rightarrow> string" where
  "Buffer_toString_hex bs = concat (map byte_hex bs)"

text \<open>
  The log statement formats \<open>expiresAt\<close> with \<^verbatim>\<open>toISOString\<close> before the entry is
  stored, so a throw leaves the state as it was.
\<close>

definition generateTempToken :: "8 word list \<Rightarrow> jsval \<Rightarrow> state \<Rightarrow> (error + string) \<times> state" where
  "generateTempToken randomBytes payload s =
     (let token = Buffer_toString_hex randomBytes;
          exp = now s + TOKEN_EXPIRY
      in if toISOString_throws exp then (Inl RangeError, s)
         else
           (Inr token,
            setTimeout (DeleteTemp token) TOKEN_EXPIRY
              (s\<lparr>tempTokenStore :=
                   Map_set token \<lparr>stored.data = payload, expiresAt = exp\<rparr> (tempTokenStore s)\<rparr>)))"

section \<open>exchangeTempToken\<close>

text \<open>
  The function returns the payload or \<^verbatim>\<open>null\<close>. Its log statements format times:
  the current time (\<^verbatim>\<open>new Date().toISOString()\<close>, always a valid time value, so this
  never throws), the \<open>expiresAt\<close> of the entry that was found, and on the not-found exit
  the \<open>expiresAt\<close> of every pending entry. The result is the returned value or the
  thrown error, together with the state the call leaves.
\<close>

definition not_found :: "state \<Rightarrow> (error + jsval) \<times> state" where
  "not_found s =
     (if list_ex (\<lambda>(k, v). toISOString_throws (expiresAt v)) (tempTokenStore s)
      then (Inl RangeError, s)
      else (Inr JNull, s))"

definition exchangeTempToken :: "string \<Rightarrow> state \<Rightarrow> (error + jsval) \<times> state" where
  "exchangeTempToken token s =
     (case Map_get (tempTokenStore s) token of
        None \<Rightarrow>
          (case Map_get (consumedTokens s) token of
             None \<Rightarrow> not_found s
           | Some c \<Rightarrow>
               if now s - consumedAt c < CONSUMED_TOKEN_RETENTION
               then (Inr (consumed.data c), s)
               else not_found (s\<lparr>consumedTokens := Map_delete token (consumedTokens s)\<rparr>))
      | Some st \<Rightarrow>
          if toISOString_throws (expiresAt st) then (Inl RangeError, s)
          else if now s > expiresAt st
          then (Inr JNull, s\<lparr>tempTokenStore := Map_delete token (tempTokenStore s)\<rparr>)
          else
            (let s1 = s\<lparr>consumedTokens :=
                          Map_set token \<lparr>consumed.data = stored.data st, consumedAt = now s\<rparr>
                            (consumedTokens s)\<rparr>;
                 s2 = setTimeout (DeleteConsumed token) CONSUMED_TOKEN_RETENTION s1;
                 s3 = s2\<lparr>tempTokenStore := Map_delete token (tempTokenStore s2)\<rparr>
             in (Inr (stored.data st), s3)))"

definition getTempTokenStoreSize :: "state \<Rightarrow> nat" where
  "getTempTokenStoreSize s = Map_size (tempTokenStore s)"

section \<open>Time, timers and runs\<close>

text \<open>
  Between two calls the clock may move forward and a timer whose delay has elapsed may
  run its closure. \<^verbatim>\<open>setTimeout\<close> guarantees only that a closure does not run before
  its delay has elapsed, so a due timer runs at some later point, chosen here by the
  event \<open>Fire\<close>. The store starts empty when the module is loaded.
\<close>

definition start :: "int \<Rightarrow> state" where
  "start t0 = \<lparr>tempTokenStore = [], consumedTokens = [], timers = [], now = t0\<rparr>"

datatype event =
    Generate "8 word list" jsval
  | Exchange string
  | Advance int
  | Fire nat

fun run_callback :: "timer_callback \<Rightarrow> state \<Rightarrow> state" where
  "run_callback (DeleteTemp token) s = s\<lparr>tempTokenStore := Map_delete token (tempTokenStore s)\<rparr>"
| "run_callback (DeleteConsumed token) s = s\<lparr>consumedTokens := Map_delete token (consumedTokens s)\<rparr>"

definition fire :: "nat \<Rightarrow> state \<Rightarrow> state" where
  "fire i s =
     (if i < length (timers s) \<and> due (timers s ! i) \<le> now s
      then run_callback (callback (timers s ! i))
             (s\<lparr>timers := take i (timers s) @ drop (Suc i) (timers s)\<rparr>)
      else s)"

fun step :: "event \<Rightarrow> state \<Rightarrow> state" where
  "step (Generate randomBytes payload) s = snd (generateTempToken randomBytes payload s)"
| "step (Exchange token) s = snd (exchangeTempToken token s)"
| "step (Advance t) s = s\<lparr>now := max t (now s)\<rparr>"
| "step (Fire i) s = fire i s"

definition run :: "event list \<Rightarrow> state \<Rightarrow> state" where
  "run evs s = fold step evs s"

text \<open>Whether an event hands out the token \<open>T\<close>.\<close>

fun issues :: "string \<Rightarrow> event \<Rightarrow> bool" where
  "issues T (Generate randomBytes payload) = (Buffer_toString_hex randomBytes = T)"
| "issues T (Exchange token) = False"
| "issues T (Advance t) = False"
| "issues T (Fire i) = False"

section \<open>URI component coding\<close>

text \<open>
  \<^verbatim>\<open>encodeURIComponent\<close> and \<^verbatim>\<open>decodeURIComponent\<close> are JavaScript built-ins, used by
  \<^verbatim>\<open>AuthController.OAuthCallback\<close> and by the exchange route. They are modelled after
  ECMA-262 on strings given as their UTF-8 bytes: encoding leaves the unreserved
  characters alone and writes every other byte as \<^verbatim>\<open>%XX\<close>; decoding replaces each
  \<^verbatim>\<open>%XX\<close> group, requires a multi-byte group to be well-formed UTF-8, and throws a
  \<^verbatim>\<open>URIError\<close> (the value \<open>None\<close>) otherwise.
\<close>

definition uriUnreserved :: "char \<Rightarrow> bool" where
  "uriUnreserved c =
     (c \<in> set ''ABCDEFGHIJKLMNOPQRSTUVWXYZabcdefghijklmnopqrstuvwxyz0123456789-_.!~*()''
      \<or> c = CHR 0x27)"

definition upper_hex_digit :: "nat \<Rightarrow> char" where
  "upper_hex_digit n = ''0123456789ABCDEF'' ! (n mod 16)"

definition encodeURIComponent :: "string \<Rightarrow> string" where
  "encodeURIComponent str =
     concat (map (\<lambda>c. if uriUnreserved c then [c]
                       else [CHR ''%'', upper_hex_digit (of_char c div 16),
                             upper_hex_digit (of_char c mod 16)]) str)"

definition hex_value :: "char \<Rightarrow> nat option" where
  "hex_value c =
     (let n = (of_char c :: nat)
      in if 48 \<le> n \<and> n \<le> 57 then Some (n - 48)
         else if 97 \<le> n \<and> n \<le> 102 then Some (n - 87)
         else if 65 \<le> n \<and> n \<le> 70 then Some (n - 55)
         else None)"

definition hex_octet :: "char \<Rightarrow> char \<Rightarrow> nat option" where
  "hex_octet h1 h2 =
     (case hex_value h1 of
        None \<Rightarrow> None
      | Some a \<Rightarrow> (case hex_value h2 of None \<Rightarrow> None | Some b \<Rightarrow> Some (16 * a + b)))"

definition leading_ones :: "nat \<Rightarrow> nat" where
  "leading_ones b =
     (if b < 128 then 0 else if b < 192 then 1 else if b < 224 then 2
      else if b < 240 then 3 else if b < 248 then 4 else 5)"

fun read_octets :: "nat \<Rightarrow> string \<Rightarrow> nat list option" where
  "read_octets 0 cs = Some []"
| "read_octets (Suc n) (p # h1 # h2 # cs) =
     (if p = CHR ''%''
      then (case hex_octet h1 h2 of
              None \<Rightarrow> None
            | Some b \<Rightarrow> map_option ((#) b) (read_octets n cs))
      else None)"
| "read_octets (Suc n) cs = None"

definition continuation :: "nat \<Rightarrow> bool" where
  "continuation b = (128 \<le> b \<and> b \<le> 191)"

fun valid_utf8 :: "nat list \<Rightarrow> bool" where
  "valid_utf8 [b0, b1] = (194 \<le> b0 \<and> b0 \<le> 223 \<and> continuation b1)"
| "valid_utf8 [b0, b1, b2] =
     (continuation b2 \<and>
      (if b0 = 224 then 160 \<le> b1 \<and> b1 \<le> 191
       else if b0 = 237 then 128 \<le> b1 \<and> b1 \<le> 159
       else 225 \<le> b0 \<and> b0 \<le> 239 \<and> continuation b1))"
| "valid_utf8 [b0, b1, b2, b3] =
     (continuation b2 \<and> continuation b3 \<and>
      (if b0 = 240 then 144 \<le> b1 \<and> b1 \<le> 191
       else if b0 = 244 then 128 \<le> b1 \<and> b1 \<le> 143
       else 241 \<le> b0 \<and> b0 \<le> 243 \<and> continuation b1))"
| "valid_utf8 bs = False"

fun decodeURIComponent :: "string \<Rightarrow> string option" where
  "decodeURIComponent [] = Some []"
| "decodeURIComponent (c # cs) =
     (if c \<noteq> CHR ''%'' then map_option ((#) c) (decodeURIComponent cs)
      else
        (case cs of
           h1 # h2 # rest \<Rightarrow>
             (case hex_octet h1 h2 of
                None \<Rightarrow> None
              | Some b \<Rightarrow>
                  if leading_ones b = 0
                  then map_option ((#) (char_of b)) (decodeURIComponent rest)
                  else if leading_ones b = 1 \<or> 4 < leading_ones b then None
                  else
                    (case read_octets (leading_ones b - 1) rest of
                       None \<Rightarrow> None
                     | Some bs \<Rightarrow>
                         if valid_utf8 (b # bs)
                         then map_option ((@) (map char_of (b # bs)))
                                (decodeURIComponent (drop (3 * (leading_ones b - 1)) rest))
                         else None))
         | _ \<Rightarrow> None))"

section \<open>The exchange route\<close>

text \<open>
  \<^verbatim>\<open>router.get("/v1/oauth/exchange", ...)\<close> in \<^verbatim>\<open>src/routes/auth-routes.ts\<close>.
  \<^verbatim>\<open>req.query.code\<close> is absent, a string, or an array or nested object. A response is
  the HTTP status with the JSON body passed to \<^verbatim>\<open>res.json\<close>.
\<close>

datatype query_value = QUndefined | QString string | QOther

record response =
  status :: nat
  body :: jsval

definition error_body :: "int \<Rightarrow> string \<Rightarrow> jsval" where
  "error_body c msg = JObj [(''code'', JNum c), (''status'', JStr ''error''), (''message'', JStr msg)]"

definition decode_code :: "string \<Rightarrow> string" where
  "decode_code code =
     (case decodeURIComponent code of
        None \<Rightarrow> code
      | Some testDecode \<Rightarrow> if testDecode \<noteq> code then testDecode else code)"

definition exchange_failed :: "nat \<Rightarrow> response" where
  "exchange_failed storeSize =
     (if storeSize = 0
      then \<lparr>status = 400, body = error_body 400
             ''Authentication code expired or invalid. The server may have restarted. Please try logging in again.''\<rparr>
      else \<lparr>status = 400, body = error_body 400
             ''Invalid or expired code. Please try logging in again.''\<rparr>)"

definition oauth_exchange :: "query_value \<Rightarrow> state \<Rightarrow> (error + response) \<times> state" where
  "oauth_exchange q s =
     (case q of
        QString code \<Rightarrow>
          if code = []
          then (Inr \<lparr>status = 400, body = error_body 400 ''Missing or invalid code''\<rparr>, s)
          else
            (case exchangeTempToken (decode_code code) s of
               (Inl e, s') \<Rightarrow> (Inl e, s')
             | (Inr d, s') \<Rightarrow>
                 if \<not> truthy d then (Inr (exchange_failed (getTempTokenStoreSize s')), s')
                 else
                   (Inr \<lparr>status = 200,
                         body = JObj [(''code'', JNum 200), (''status'', JStr ''success''),
                                      (''data'', d)]\<rparr>, s'))
      | _ \<Rightarrow> (Inr \<lparr>status = 400, body = error_body 400 ''Missing or invalid code''\<rparr>, s))"

section \<open>The email-verification gate\<close>

text \<open>
  \<^verbatim>\<open>EmailVerificationMiddleware.execute\<close> in
  \<^verbatim>\<open>src/middlewares/email-verification-middleware.ts\<close>. The request carries an optional
  \<^verbatim>\<open>user: { sub, role }\<close>. \<^verbatim>\<open>UserRepository.findById\<close> asks the database for the first
  user row with the given id; the promise resolves to the row or to \<^verbatim>\<open>null\<close>, or it
  rejects when the query fails. The middleware answers with a response or calls
  \<^verbatim>\<open>next()\<close>; the model also returns the ids it looked up.
\<close>

record principal =
  sub :: string
  role :: string

record request =
  user :: "principal option"

record user_row =
  user_id :: string
  name :: "string option"
  email :: "string option"
  createdAt :: int
  role :: string
  emailVerified :: "int option"

record database =
  reachable :: bool
  users :: "user_row list"

datatype db_error = QueryFailed

definition findById :: "database \<Rightarrow> string \<Rightarrow> db_error + user_row option" where
  "findById db uid =
     (if reachable db then Inr (find (\<lambda>u. user_id u = uid) (users db)) else Inl QueryFailed)"

datatype outcome = Responded response | Next

definition execute :: "request \<Rightarrow> database \<Rightarrow> outcome \<times> string list" where
  "execute req db =
     (case map_option sub (user req) of
        None \<Rightarrow> (Responded \<lparr>status = 401, body = error_body 401 ''Authentication required''\<rparr>, [])
      | Some userId \<Rightarrow>
          if userId = []
          then (Responded \<lparr>status = 401, body = error_body 401 ''Authentication required''\<rparr>, [])
          else
            (case findById db userId of
               Inl err \<Rightarrow>
                 (Responded \<lparr>status = 500, body = error_body 500 ''Failed to verify email status''\<rparr>,
                  [userId])
             | Inr None \<Rightarrow>
                 (Responded \<lparr>status = 404, body = error_body 404 ''User not found''\<rparr>, [userId])
             | Inr (Some u) \<Rightarrow>
                 if emailVerified u = None
                 then (Responded \<lparr>status = 403, body = error_body 403
                         ''Email verification required. Please verify your email to participate in discussions and favorites.''\<rparr>,
                       [userId])
                 else (Next, [userId])))"

section \<open>Predicates on states\<close>

text \<open>Every pending entry carries an \<open>expiresAt\<close> that is a valid time value.\<close>

definition store_ok :: "state \<Rightarrow> bool" where
  "store_ok s = list_all (\<lambda>(k, v). \<not> toISOString_throws (expiresAt v)) (tempTokenStore s)"

text \<open>
  \<open>purge_queued\<close>: for every pending entry the timer queue holds a purge of that token,
  due at the entry's \<open>expiresAt\<close>.
\<close>

definition purge_queued :: "state \<Rightarrow> bool" where
  "purge_queued s =
     list_all (\<lambda>(k, st). list_ex (\<lambda>tm. callback tm = DeleteTemp k \<and> due tm = expiresAt st) (timers s))
       (tempTokenStore s)"

text \<open>
  \<open>waiting T P e\<close>: \<open>T\<close> is pending with payload \<open>P\<close> and expiry \<open>e\<close>, and no timer may
  purge it before \<open>e\<close>.
\<close>

definition waiting :: "string \<Rightarrow> jsval \<Rightarrow> int \<Rightarrow> state \<Rightarrow> bool" where
  "waiting T P e s =
     (Map_get (tempTokenStore s) T = Some \<lparr>stored.data = P, expiresAt = e\<rparr>
      \<and> (\<forall>tm \<in> set (timers s). callback tm = DeleteTemp T \<longrightarrow> e \<le> due tm))"


text \<open>
  \<open>lapsed T\<close>: \<open>T\<close> is not in the consumed cache and, if it is still pending, its
  \<open>expiresAt\<close> has passed.
\<close>

definition lapsed :: "string \<Rightarrow> state \<Rightarrow> bool" where
  "lapsed T s =
     (Map_get (consumedTokens s) T = None
      \<and> (case Map_get (tempTokenStore s) T of None \<Rightarrow> True | Some st \<Rightarrow> expiresAt st < now s))"

text \<open>
  \<open>spent T c\<close>: \<open>T\<close> has left the pending store and, if the consumed cache still holds
  it, it was consumed at \<open>c\<close> or earlier.
\<close>

definition spent :: "string \<Rightarrow> int \<Rightarrow> state \<Rightarrow> bool" where
  "spent T c s =
     (Map_get (tempTokenStore s) T = None
      \<and> (case Map_get (consumedTokens s) T of None \<Rightarrow> True | Some ce \<Rightarrow> consumedAt ce \<le> c))"

text \<open>
  \<open>redeemable tok\<close>: the lookups of \<^verbatim>\<open>exchangeTempToken\<close> would find a payload for
  \<open>tok\<close>: it is pending and not past \<open>expiresAt\<close>, or it is cached and within the
  retention.
\<close>

definition redeemable :: "string \<Rightarrow> state \<Rightarrow> bool" where
  "redeemable tok s =
     (case Map_get (tempTokenStore s) tok of
        Some st \<Rightarrow> now s \<le> expiresAt st
      | None \<Rightarrow>
          (case Map_get (consumedTokens s) tok of
             Some c \<Rightarrow> now s - consumedAt c < 60000
           | None \<Rightarrow> False))"

text \<open>\<^verbatim>\<open>!userId\<close> with \<^verbatim>\<open>userId = authReq.user?.sub\<close>: no user, or an empty \<open>sub\<close>.\<close>

definition no_user_id :: "request \<Rightarrow> bool" where
  "no_user_id req = (case map_option sub (user req) of None \<Rightarrow> True | Some userId \<Rightarrow> userId = [])"

section \<open>Example states\<close>

text \<open>
  The scenario of the specification: a payload \<^verbatim>\<open>{userId: "u1"}\<close> is issued at time 0
  (the random source yields the single byte \<open>0xAB\<close>, so the token is \<open>''ab''\<close>), and the
  clock stands at 5 s. From there the token is exchanged, or the clock passes
  \<open>expiresAt\<close>. \<open>example_null\<close> issues the payload \<^verbatim>\<open>null\<close> instead.
\<close>

definition example_payload :: jsval where
  "example_payload = JObj [(''userId'', JStr ''u1'')]"

definition example_pending :: state where
  "example_pending = run [Generate [0xAB] example_payload, Advance 5000] (start 0)"

definition example_consumed :: state where
  "example_consumed = run [Exchange ''ab''] example_pending"

definition example_expired :: state where
  "example_expired = run [Advance 900001] example_pending"

text \<open>\<open>example_purged\<close>: the clock reaches \<open>expiresAt\<close> and the purge timer runs.\<close>

definition example_purged :: state where
  "example_purged = run [Generate [0xAB] example_payload, Advance 900000, Fire 0] (start 0)"

definition example_null :: state where
  "example_null = run [Generate [0xAB] JNull] (start 0)"

definition example_db :: database where
  "example_db =
     \<lparr>reachable = True,
      users =
        [\<lparr>user_id = ''u1'', name = Some ''Ana'', email = Some ''ana@example.com'', createdAt = 1000,
          role = ''CUSTOMER'', emailVerified = Some 2000\<rparr>,
         \<lparr>user_id = ''u2'', name = Some ''Ben'', email = Some ''ben@example.com'', createdAt = 3000,
          role = ''CUSTOMER'', emailVerified = None\<rparr>]\<rparr>"

definition request_of :: "string \<Rightarrow> request" where
  "request_of uid = \<lparr>user = Some \<lparr>sub = uid, role = ''CUSTOMER''\<rparr>\<rparr>"

section \<open>Basic facts about the maps\<close>

lemma Map_get_set: "Map_get (Map_set k v m) k' = (if k' = k then Some v else Map_get m k')"
  by (simp add: Map_get_def Map_set_def update_conv')

lemma Map_get_delete: "Map_get (Map_delete k m) k' = (if k' = k then None else Map_get m k')"
  by (simp add: Map_get_def Map_delete_def delete_conv')

lemma Map_get_mem: "Map_get m k = Some v \<Longrightarrow> (k, v) \<in> set m"
  by (simp add: Map_get_def map_of_SomeD)

section \<open>Invariants of the store\<close>

subsection \<open>Stored expiry times stay valid time values\<close>

lemma store_ok_delete: "store_ok s \<Longrightarrow> store_ok (s\<lparr>tempTokenStore := Map_delete k (tempTokenStore s)\<rparr>)"
  by (simp add: store_ok_def Map_delete_def AList.delete_eq list_all_iff)

lemma list_all_update:
  "list_all Q m \<Longrightarrow> Q (k, v) \<Longrightarrow> list_all Q (AList.update k v m)"
  by (induction m) auto

lemma store_ok_generate: "store_ok s \<Longrightarrow> store_ok (snd (generateTempToken rnd P s))"
  by (simp add: generateTempToken_def Let_def store_ok_def setTimeout_def Map_set_def list_all_update)

lemma store_ok_exchange: "store_ok s \<Longrightarrow> store_ok (snd (exchangeTempToken tok s))"
  by (auto simp add: exchangeTempToken_def not_found_def Let_def store_ok_def setTimeout_def
      Map_delete_def AList.delete_eq list_all_iff split: option.splits)

lemma store_ok_fire: "store_ok s \<Longrightarrow> store_ok (fire i s)"
  by (cases "callback (timers s ! i)")
     (auto simp add: fire_def store_ok_def Map_delete_def AList.delete_eq list_all_iff)

lemma store_ok_step: "store_ok s \<Longrightarrow> store_ok (step ev s)"
  by (cases ev) (simp_all add: store_ok_generate store_ok_exchange store_ok_fire, simp add: store_ok_def)

lemma store_ok_run: "store_ok s \<Longrightarrow> store_ok (run evs s)"
  unfolding run_def by (induction evs arbitrary: s) (simp_all add: store_ok_step)

lemma store_ok_start: "store_ok (start t0)"
  by (simp add: store_ok_def start_def)

lemma not_found_ok: "store_ok s \<Longrightarrow> not_found s = (Inr JNull, s)"
  by (auto simp add: not_found_def store_ok_def list_ex_iff list_all_iff)

lemma store_ok_pending:
  "store_ok s \<Longrightarrow> Map_get (tempTokenStore s) T = Some st \<Longrightarrow> \<not> toISOString_throws (expiresAt st)"
  by (auto simp add: store_ok_def list_all_iff dest: Map_get_mem)

subsection \<open>The clock never moves back\<close>

lemma now_fire: "now (fire i s) = now s"
  by (cases "callback (timers s ! i)") (simp_all add: fire_def)

lemma now_generate: "now (snd (generateTempToken rnd P s)) = now s"
  by (simp add: generateTempToken_def Let_def setTimeout_def)

lemma now_exchange: "now (snd (exchangeTempToken tok s)) = now s"
  by (simp add: exchangeTempToken_def not_found_def Let_def setTimeout_def split: option.splits)

lemma now_step: "now s \<le> now (step ev s)"
  by (cases ev) (simp_all add: now_fire now_generate now_exchange)

lemma now_run: "now s \<le> now (run evs s)"
  unfolding run_def
proof (induction evs arbitrary: s)
  case Nil
  then show ?case by simp
next
  case (Cons ev evs)
  have "now s \<le> now (step ev s)" by (rule now_step)
  also have "\<dots> \<le> now (fold step evs (step ev s))" by (rule Cons.IH)
  finally show ?case by simp
qed

subsection \<open>A token that is not issued again stays out of the pending store\<close>

lemma temp_absent_generate:
  "Buffer_toString_hex rnd \<noteq> T \<Longrightarrow>
   Map_get (tempTokenStore (snd (generateTempToken rnd P s))) T = Map_get (tempTokenStore s) T"
  by (simp add: generateTempToken_def Let_def setTimeout_def Map_get_set)

lemma temp_absent_exchange:
  "Map_get (tempTokenStore s) T = None \<Longrightarrow>
   Map_get (tempTokenStore (snd (exchangeTempToken tok s))) T = None"
  by (simp add: exchangeTempToken_def not_found_def Let_def setTimeout_def Map_get_delete
      split: option.splits)

lemma temp_absent_fire:
  "Map_get (tempTokenStore s) T = None \<Longrightarrow> Map_get (tempTokenStore (fire i s)) T = None"
  by (cases "callback (timers s ! i)") (simp_all add: fire_def Map_get_delete)

lemma temp_absent_step:
  "\<not> issues T ev \<Longrightarrow> Map_get (tempTokenStore s) T = None \<Longrightarrow>
   Map_get (tempTokenStore (step ev s)) T = None"
  by (cases ev) (simp_all add: temp_absent_generate temp_absent_exchange temp_absent_fire)

lemma consumed_generate:
  "consumedTokens (snd (generateTempToken rnd P s)) = consumedTokens s"
  by (simp add: generateTempToken_def Let_def setTimeout_def)

lemma consumed_exchange:
  "Map_get (tempTokenStore s) T = None \<Longrightarrow>
   Map_get (consumedTokens (snd (exchangeTempToken tok s))) T = None
   \<or> Map_get (consumedTokens (snd (exchangeTempToken tok s))) T = Map_get (consumedTokens s) T"
  by (cases "tok = T")
     (auto simp add: exchangeTempToken_def not_found_def Let_def setTimeout_def Map_get_delete
        Map_get_set split: option.splits)

lemma consumed_fire:
  "Map_get (consumedTokens (fire i s)) T = None
   \<or> Map_get (consumedTokens (fire i s)) T = Map_get (consumedTokens s) T"
  by (cases "callback (timers s ! i)") (simp_all add: fire_def Map_get_delete)

lemma consumed_step:
  "Map_get (tempTokenStore s) T = None \<Longrightarrow>
   Map_get (consumedTokens (step ev s)) T = None
   \<or> Map_get (consumedTokens (step ev s)) T = Map_get (consumedTokens s) T"
  by (cases ev) (simp_all add: consumed_generate consumed_exchange consumed_fire)

lemma absent_run:
  "list_all (\<lambda>ev. \<not> issues T ev) evs \<Longrightarrow>
   Map_get (tempTokenStore s) T = None \<Longrightarrow> Map_get (consumedTokens s) T = None \<Longrightarrow>
   Map_get (tempTokenStore (run evs s)) T = None \<and> Map_get (consumedTokens (run evs s)) T = None"
  unfolding run_def
proof (induction evs arbitrary: s)
  case Nil
  then show ?case by simp
next
  case (Cons ev evs)
  from Cons.prems have ni: "\<not> issues T ev" and rest: "list_all (\<lambda>ev. \<not> issues T ev) evs"
    by simp_all
  have t: "Map_get (tempTokenStore (step ev s)) T = None"
    using ni Cons.prems(2) by (rule temp_absent_step)
  have c: "Map_get (consumedTokens (step ev s)) T = None"
    using consumed_step [OF Cons.prems(2), of ev] Cons.prems(3) by auto
  show ?case using Cons.IH [OF rest t c] by simp
qed

lemma exchange_absent:
  "store_ok s \<Longrightarrow> Map_get (tempTokenStore s) T = None \<Longrightarrow> Map_get (consumedTokens s) T = None \<Longrightarrow>
   exchangeTempToken T s = (Inr JNull, s)"
  by (simp add: exchangeTempToken_def not_found_ok)

lemma entry_kept_exchange:
  "Map_get (tempTokenStore (snd (exchangeTempToken tok s))) T = None
   \<or> Map_get (tempTokenStore (snd (exchangeTempToken tok s))) T = Map_get (tempTokenStore s) T"
  by (simp add: exchangeTempToken_def not_found_def Let_def setTimeout_def Map_get_delete
      split: option.splits)

lemma entry_kept_fire:
  "Map_get (tempTokenStore (fire i s)) T = None
   \<or> Map_get (tempTokenStore (fire i s)) T = Map_get (tempTokenStore s) T"
  by (cases "callback (timers s ! i)") (simp_all add: fire_def Map_get_delete)

lemma entry_kept_step:
  "\<not> issues T ev \<Longrightarrow>
   Map_get (tempTokenStore (step ev s)) T = None
   \<or> Map_get (tempTokenStore (step ev s)) T = Map_get (tempTokenStore s) T"
  by (cases ev) (simp_all add: temp_absent_generate entry_kept_exchange entry_kept_fire)

lemma entry_kept_run:
  "list_all (\<lambda>ev. \<not> issues T ev) evs \<Longrightarrow>
   Map_get (tempTokenStore (run evs s)) T = None
   \<or> Map_get (tempTokenStore (run evs s)) T = Map_get (tempTokenStore s) T"
  unfolding run_def
proof (induction evs arbitrary: s)
  case Nil
  then show ?case by simp
next
  case (Cons ev evs)
  from Cons.prems have ni: "\<not> issues T ev" and rest: "list_all (\<lambda>ev. \<not> issues T ev) evs"
    by simp_all
  from Cons.IH [OF rest, of "step ev s"] entry_kept_step [OF ni, of s] show ?case by auto
qed

lemma exchange_pending:
  assumes "Map_get (tempTokenStore s) T = Some \<lparr>stored.data = P, expiresAt = e\<rparr>"
    and "\<not> toISOString_throws e" and "now s \<le> e"
  shows "exchangeTempToken T s =
     (Inr P,
      s\<lparr>consumedTokens := Map_set T \<lparr>consumed.data = P, consumedAt = now s\<rparr> (consumedTokens s),
        timers := timers s @ [\<lparr>due = now s + 60000, callback = DeleteConsumed T\<rparr>],
        tempTokenStore := Map_delete T (tempTokenStore s)\<rparr>)"
  using assms
  by (simp add: exchangeTempToken_def Let_def setTimeout_def CONSUMED_TOKEN_RETENTION_def)

subsection \<open>A cached token stays cached until the retention has passed\<close>





lemma set_remove_nth: "x \<in> set (take i xs @ drop (Suc i) xs) \<Longrightarrow> x \<in> set xs"
  by (auto dest: in_set_takeD in_set_dropD)





subsection \<open>A pending token stays pending until its expiry\<close>

lemma waiting_generate:
  "Buffer_toString_hex rnd \<noteq> T \<Longrightarrow> waiting T P e s \<Longrightarrow>
   waiting T P e (snd (generateTempToken rnd Q s))"
  by (auto simp add: waiting_def generateTempToken_def Let_def setTimeout_def Map_get_set)

lemma waiting_exchange_other:
  "tok \<noteq> T \<Longrightarrow> waiting T P e s \<Longrightarrow> waiting T P e (snd (exchangeTempToken tok s))"
  by (auto simp add: waiting_def exchangeTempToken_def not_found_def Let_def setTimeout_def
      Map_get_set Map_get_delete split: option.splits)

lemma waiting_fire:
  assumes "waiting T P e s" and "now s < e"
  shows "waiting T P e (fire i s)"
proof (cases "i < length (timers s) \<and> due (timers s ! i) \<le> now s")
  case False
  then have "fire i s = s" by (auto simp add: fire_def)
  then show ?thesis using assms by simp
next
  case True
  then have mem: "timers s ! i \<in> set (timers s)" by simp
  have ne: "callback (timers s ! i) \<noteq> DeleteTemp T"
  proof
    assume "callback (timers s ! i) = DeleteTemp T"
    with assms(1) mem have "e \<le> due (timers s ! i)" by (simp add: waiting_def)
    with True assms(2) show False by simp
  qed
  have tmrs: "\<forall>tm \<in> set (take i (timers s) @ drop (Suc i) (timers s)).
      callback tm = DeleteTemp T \<longrightarrow> e \<le> due tm"
  proof (intro ballI impI)
    fix tm
    assume rm: "tm \<in> set (take i (timers s) @ drop (Suc i) (timers s))"
      and cb: "callback tm = DeleteTemp T"
    from rm have "tm \<in> set (timers s)" by (rule set_remove_nth)
    with assms(1) cb show "e \<le> due tm" by (simp add: waiting_def)
  qed
  show ?thesis
  proof (cases "callback (timers s ! i)")
    case (DeleteTemp k)
    with ne have "k \<noteq> T" by simp
    with True DeleteTemp assms(1) tmrs show ?thesis
      by (simp add: fire_def waiting_def Map_get_delete)
  next
    case (DeleteConsumed k)
    with True assms(1) tmrs show ?thesis
      by (simp add: fire_def waiting_def Map_get_delete)
  qed
qed

lemma waiting_step:
  assumes "\<not> issues T ev" and "ev \<noteq> Exchange T" and "waiting T P e s"
    and "now (step ev s) < e"
  shows "waiting T P e (step ev s)"
proof (cases ev)
  case (Generate rnd Q)
  with assms show ?thesis by (simp add: waiting_generate)
next
  case (Exchange tok)
  with assms show ?thesis by (simp add: waiting_exchange_other)
next
  case (Advance t)
  with assms show ?thesis by (simp add: waiting_def)
next
  case (Fire i)
  with assms show ?thesis by (simp add: waiting_fire now_fire)
qed

lemma waiting_run:
  "list_all (\<lambda>ev. \<not> issues T ev \<and> ev \<noteq> Exchange T) evs \<Longrightarrow> waiting T P e s \<Longrightarrow>
   now (run evs s) < e \<Longrightarrow> waiting T P e (run evs s)"
  unfolding run_def
proof (induction evs arbitrary: s)
  case Nil
  then show ?case by simp
next
  case (Cons ev evs)
  have "now (step ev s) \<le> now (run evs (step ev s))" by (rule now_run)
  with Cons.prems(3) have lt: "now (step ev s) < e" by (simp add: run_def)
  from Cons.prems(1) have ni: "\<not> issues T ev" and nx: "ev \<noteq> Exchange T"
    and rest: "list_all (\<lambda>ev. \<not> issues T ev \<and> ev \<noteq> Exchange T) evs"
    by simp_all
  have "waiting T P e (step ev s)" using ni nx Cons.prems(2) lt by (rule waiting_step)
  then show ?case using Cons.IH [OF rest] Cons.prems(3) by simp
qed

lemma waiting_after_generate:
  assumes "\<not> toISOString_throws (now s + 900000)"
    and "DeleteTemp (Buffer_toString_hex rnd) \<notin> set (map callback (timers s))"
  shows "waiting (Buffer_toString_hex rnd) P (now s + 900000) (snd (generateTempToken rnd P s))"
proof -
  have no: "\<And>tm. tm \<in> set (timers s) \<Longrightarrow> callback tm \<noteq> DeleteTemp (Buffer_toString_hex rnd)"
    using assms(2) by (force simp add: image_iff)
  have st: "snd (generateTempToken rnd P s) =
      s\<lparr>tempTokenStore := Map_set (Buffer_toString_hex rnd)
            \<lparr>stored.data = P, expiresAt = now s + 900000\<rparr> (tempTokenStore s),
        timers := timers s @ [\<lparr>due = now s + 900000, callback = DeleteTemp (Buffer_toString_hex rnd)\<rparr>]\<rparr>"
    using assms(1)
    by (simp add: generateTempToken_def Let_def setTimeout_def TOKEN_EXPIRY_def)
  show ?thesis unfolding st waiting_def
  proof (intro conjI ballI impI)
    fix tm
    assume "tm \<in> set (timers (s\<lparr>tempTokenStore := Map_set (Buffer_toString_hex rnd)
            \<lparr>stored.data = P, expiresAt = now s + 900000\<rparr> (tempTokenStore s),
        timers := timers s @ [\<lparr>due = now s + 900000, callback = DeleteTemp (Buffer_toString_hex rnd)\<rparr>]\<rparr>))"
      and cb: "callback tm = DeleteTemp (Buffer_toString_hex rnd)"
    then have "tm \<in> set (timers s)
        \<or> tm = \<lparr>due = now s + 900000, callback = DeleteTemp (Buffer_toString_hex rnd)\<rparr>"
      by auto
    with no cb show "now s + 900000 \<le> due tm" by auto
  qed (simp_all add: Map_get_set)
qed

subsection \<open>A lapsed token stays lapsed, a spent token stays spent\<close>

lemma lapsed_generate:
  "Buffer_toString_hex rnd \<noteq> T \<Longrightarrow> lapsed T s \<Longrightarrow> lapsed T (snd (generateTempToken rnd Q s))"
  by (auto simp add: lapsed_def generateTempToken_def Let_def setTimeout_def Map_get_set
      split: option.splits)

lemma lapsed_exchange: "lapsed T s \<Longrightarrow> lapsed T (snd (exchangeTempToken tok s))"
  by (cases "tok = T")
     (auto simp add: lapsed_def exchangeTempToken_def not_found_def Let_def setTimeout_def
        Map_get_set Map_get_delete split: option.splits)

lemma lapsed_fire: "lapsed T s \<Longrightarrow> lapsed T (fire i s)"
  by (cases "callback (timers s ! i)")
     (auto simp add: lapsed_def fire_def Map_get_delete split: option.splits)

lemma lapsed_step: "\<not> issues T ev \<Longrightarrow> lapsed T s \<Longrightarrow> lapsed T (step ev s)"
proof (cases ev)
  case (Advance t)
  assume "lapsed T s"
  then show ?thesis unfolding Advance by (auto simp add: lapsed_def split: option.splits)
qed (simp_all add: lapsed_generate lapsed_exchange lapsed_fire)

lemma lapsed_run: "list_all (\<lambda>ev. \<not> issues T ev) evs \<Longrightarrow> lapsed T s \<Longrightarrow> lapsed T (run evs s)"
  unfolding run_def by (induction evs arbitrary: s) (simp_all add: lapsed_step)

lemma exchange_lapsed:
  assumes "store_ok s" and "lapsed T s"
  shows "fst (exchangeTempToken T s) = Inr JNull
       \<and> Map_get (tempTokenStore (snd (exchangeTempToken T s))) T = None
       \<and> Map_get (consumedTokens (snd (exchangeTempToken T s))) T = None"
proof (cases "Map_get (tempTokenStore s) T")
  case None
  with assms show ?thesis by (simp add: lapsed_def exchange_absent)
next
  case (Some st)
  then have "(T, st) \<in> set (tempTokenStore s)" by (simp add: Map_get_def map_of_SomeD)
  with assms(1) have "\<not> toISOString_throws (expiresAt st)"
    by (auto simp add: store_ok_def list_all_iff)
  with Some assms(2) show ?thesis
    by (simp add: lapsed_def exchangeTempToken_def Map_get_delete)
qed

lemma spent_step: "\<not> issues T ev \<Longrightarrow> spent T c s \<Longrightarrow> spent T c (step ev s)"
  using temp_absent_step [of T ev s] consumed_step [of s T ev]
  by (auto simp add: spent_def split: option.splits)

lemma spent_run: "list_all (\<lambda>ev. \<not> issues T ev) evs \<Longrightarrow> spent T c s \<Longrightarrow> spent T c (run evs s)"
  unfolding run_def by (induction evs arbitrary: s) (simp_all add: spent_step)

lemma exchange_spent:
  assumes "store_ok s" and "spent T c s" and "c + 60000 \<le> now s"
  shows "fst (exchangeTempToken T s) = Inr JNull
       \<and> Map_get (consumedTokens (snd (exchangeTempToken T s))) T = None"
proof (cases "Map_get (consumedTokens s) T")
  case None
  with assms show ?thesis by (simp add: spent_def exchange_absent)
next
  case (Some ce)
  have ok: "store_ok (s\<lparr>consumedTokens := Map_delete T (consumedTokens s)\<rparr>)"
    using assms(1) by (simp add: store_ok_def)
  from Some assms(2,3) have "\<not> now s - consumedAt ce < CONSUMED_TOKEN_RETENTION"
    by (simp add: spent_def CONSUMED_TOKEN_RETENTION_def)
  with Some assms(2) show ?thesis
    by (simp add: spent_def exchangeTempToken_def not_found_ok [OF ok] Map_get_delete)
qed

lemma exchange_total:
  assumes "store_ok s"
  shows "\<exists>v. fst (exchangeTempToken tok s) = Inr v"
proof (cases "Map_get (tempTokenStore s) tok")
  case None
  have ok: "store_ok (s\<lparr>consumedTokens := Map_delete tok (consumedTokens s)\<rparr>)"
    using assms by (simp add: store_ok_def)
  from None show ?thesis
    by (simp add: exchangeTempToken_def not_found_ok [OF assms] not_found_ok [OF ok]
        split: option.splits)
next
  case (Some st)
  then have "(tok, st) \<in> set (tempTokenStore s)" by (simp add: Map_get_def map_of_SomeD)
  with assms have "\<not> toISOString_throws (expiresAt st)"
    by (auto simp add: store_ok_def list_all_iff)
  with Some show ?thesis by (simp add: exchangeTempToken_def Let_def)
qed

lemma exchange_not_redeemable:
  assumes "store_ok s" and "\<not> redeemable tok s"
  shows "fst (exchangeTempToken tok s) = Inr JNull"
proof (cases "Map_get (tempTokenStore s) tok")
  case None
  have ok: "store_ok (s\<lparr>consumedTokens := Map_delete tok (consumedTokens s)\<rparr>)"
    using assms by (simp add: store_ok_def)
  from None assms(2) show ?thesis
    by (simp add: exchangeTempToken_def redeemable_def not_found_ok [OF assms(1)]
        not_found_ok [OF ok] CONSUMED_TOKEN_RETENTION_def split: option.splits)
next
  case (Some st)
  then have "(tok, st) \<in> set (tempTokenStore s)" by (simp add: Map_get_def map_of_SomeD)
  with assms have "\<not> toISOString_throws (expiresAt st)"
    by (auto simp add: store_ok_def list_all_iff)
  with Some assms(2) show ?thesis by (simp add: exchangeTempToken_def redeemable_def)
qed

subsection \<open>Every pending entry has its purge timer queued\<close>

lemma purge_queued_iff:
  "purge_queued s \<longleftrightarrow>
     (\<forall>(k, st) \<in> set (tempTokenStore s).
        \<exists>tm \<in> set (timers s). callback tm = DeleteTemp k \<and> due tm = expiresAt st)"
  by (auto simp add: purge_queued_def list_all_iff list_ex_iff)

lemma set_update_subset: "set (AList.update k v m) \<subseteq> insert (k, v) (set m)"
  by (induction m) auto

lemma set_delete_subset: "(k', v) \<in> set (AList.delete k m) \<Longrightarrow> (k', v) \<in> set m \<and> k' \<noteq> k"
  by (auto simp add: AList.delete_eq)

lemma purge_queued_generate: "purge_queued s \<Longrightarrow> purge_queued (snd (generateTempToken rnd P s))"
  unfolding purge_queued_iff
  using set_update_subset [of "Buffer_toString_hex rnd" _ "tempTokenStore s"]
  by (fastforce simp add: generateTempToken_def Let_def setTimeout_def Map_set_def TOKEN_EXPIRY_def)

lemma exchange_temp_subset:
  "set (tempTokenStore (snd (exchangeTempToken tok s))) \<subseteq> set (tempTokenStore s)"
  by (auto simp add: exchangeTempToken_def not_found_def Let_def setTimeout_def Map_delete_def
      AList.delete_eq split: option.splits)

lemma exchange_timers_superset:
  "set (timers s) \<subseteq> set (timers (snd (exchangeTempToken tok s)))"
  by (auto simp add: exchangeTempToken_def not_found_def Let_def setTimeout_def
      split: option.splits)

lemma purge_queued_exchange: "purge_queued s \<Longrightarrow> purge_queued (snd (exchangeTempToken tok s))"
  unfolding purge_queued_iff
  using exchange_temp_subset [of tok s] exchange_timers_superset [of s tok] by blast

lemma set_keep_nth:
  assumes "x \<in> set xs" and "x \<noteq> xs ! i"
  shows "x \<in> set (take i xs @ drop (Suc i) xs)"
proof -
  from assms(1) obtain j where j: "j < length xs" "xs ! j = x" by (auto simp add: in_set_conv_nth)
  with assms(2) have "j \<noteq> i" by auto
  then consider "j < i" | "i < j" by linarith
  then show ?thesis
  proof cases
    case 1
    with j have "x \<in> set (take i xs)" by (auto simp add: in_set_conv_nth intro!: exI [of _ j])
    then show ?thesis by simp
  next
    case 2
    then obtain d where d: "j = Suc i + d" by (metis less_iff_Suc_add add_Suc)
    with j have "drop (Suc i) xs ! d = x" "d < length (drop (Suc i) xs)" by auto
    then have "x \<in> set (drop (Suc i) xs)" by (metis nth_mem)
    then show ?thesis by simp
  qed
qed

lemma purge_queued_fire:
  assumes "purge_queued s"
  shows "purge_queued (fire i s)"
proof (cases "i < length (timers s) \<and> due (timers s ! i) \<le> now s")
  case False
  then have "fire i s = s" by (auto simp add: fire_def)
  then show ?thesis using assms by simp
next
  case True
  show ?thesis
  proof (cases "callback (timers s ! i)")
    case (DeleteTemp k')
    have st: "fire i s = s\<lparr>timers := take i (timers s) @ drop (Suc i) (timers s),
        tempTokenStore := Map_delete k' (tempTokenStore s)\<rparr>"
      using True DeleteTemp by (simp add: fire_def)
    show ?thesis unfolding purge_queued_iff st
    proof (clarsimp simp del: set_append)
      fix k v
      assume "(k, v) \<in> set (Map_delete k' (tempTokenStore s))"
      then have mem: "(k, v) \<in> set (tempTokenStore s)" and ne: "k \<noteq> k'"
        by (auto simp add: Map_delete_def dest: set_delete_subset)
      from assms mem obtain tm where tm: "tm \<in> set (timers s)" "callback tm = DeleteTemp k"
        "due tm = expiresAt v" by (auto simp add: purge_queued_iff)
      with ne DeleteTemp have "tm \<noteq> timers s ! i" by auto
      with tm(1) have "tm \<in> set (take i (timers s) @ drop (Suc i) (timers s))"
        by (rule set_keep_nth)
      with tm(2,3) show "\<exists>tm \<in> set (take i (timers s) @ drop (Suc i) (timers s)).
          callback tm = DeleteTemp k \<and> due tm = expiresAt v" by blast
    qed
  next
    case (DeleteConsumed k')
    have st: "fire i s = s\<lparr>timers := take i (timers s) @ drop (Suc i) (timers s),
        consumedTokens := Map_delete k' (consumedTokens s)\<rparr>"
      using True DeleteConsumed by (simp add: fire_def)
    show ?thesis unfolding purge_queued_iff st
    proof (clarsimp simp del: set_append)
      fix k v
      assume mem: "(k, v) \<in> set (tempTokenStore s)"
      from assms mem obtain tm where tm: "tm \<in> set (timers s)" "callback tm = DeleteTemp k"
        "due tm = expiresAt v" by (auto simp add: purge_queued_iff)
      with DeleteConsumed have "tm \<noteq> timers s ! i" by auto
      with tm(1) have "tm \<in> set (take i (timers s) @ drop (Suc i) (timers s))"
        by (rule set_keep_nth)
      with tm(2,3) show "\<exists>tm \<in> set (take i (timers s) @ drop (Suc i) (timers s)).
          callback tm = DeleteTemp k \<and> due tm = expiresAt v" by blast
    qed
  qed
qed

lemma purge_queued_step: "purge_queued s \<Longrightarrow> purge_queued (step ev s)"
  by (cases ev)
     (simp_all add: purge_queued_generate purge_queued_exchange purge_queued_fire, simp add: purge_queued_def)

lemma purge_queued_run: "purge_queued s \<Longrightarrow> purge_queued (run evs s)"
  unfolding run_def by (induction evs arbitrary: s) (simp_all add: purge_queued_step)

lemma purge_queued_start: "purge_queued (start t0)"
  by (simp add: purge_queued_def start_def)

lemma purge_due:
  assumes "purge_queued s" and "lapsed T s"
  shows "Map_get (tempTokenStore s) T = None
       \<or> (\<exists>i<length (timers s). callback (timers s ! i) = DeleteTemp T
             \<and> due (timers s ! i) < now s
             \<and> Map_get (tempTokenStore (fire i s)) T = None)"
proof (cases "Map_get (tempTokenStore s) T")
  case None
  then show ?thesis by simp
next
  case (Some st)
  then have "(T, st) \<in> set (tempTokenStore s)" by (rule Map_get_mem)
  with assms(1) obtain tm where tm: "tm \<in> set (timers s)" "callback tm = DeleteTemp T"
    "due tm = expiresAt st" by (auto simp add: purge_queued_iff)
  then obtain i where i: "i < length (timers s)" "timers s ! i = tm"
    by (auto simp add: in_set_conv_nth)
  from assms(2) Some have lt: "expiresAt st < now s" by (simp add: lapsed_def)
  have "Map_get (tempTokenStore (fire i s)) T = None"
    using i tm lt by (simp add: fire_def Map_get_delete)
  with i tm lt show ?thesis by auto
qed

subsection \<open>Hexadecimal tokens and URI coding\<close>

lemma hex_digit_in: "hex_digit n \<in> set ''0123456789abcdef''"
proof -
  have "n mod 16 < length ''0123456789abcdef''" by simp
  then show ?thesis unfolding hex_digit_def by (rule nth_mem)
qed

lemma set_hex: "set (Buffer_toString_hex bs) \<subseteq> set ''0123456789abcdef''"
  unfolding Buffer_toString_hex_def byte_hex_def using hex_digit_in by auto

lemma length_hex: "length (Buffer_toString_hex bs) = 2 * length bs"
  unfolding Buffer_toString_hex_def byte_hex_def by (induction bs) simp_all

lemma hex_unreserved: "c \<in> set ''0123456789abcdef'' \<Longrightarrow> uriUnreserved c \<and> c \<noteq> CHR ''%''"
  by (auto simp add: uriUnreserved_def)

lemma encode_unreserved: "\<forall>c \<in> set str. uriUnreserved c \<Longrightarrow> encodeURIComponent str = str"
  unfolding encodeURIComponent_def by (induction str) simp_all

lemma decode_no_percent: "CHR ''%'' \<notin> set str \<Longrightarrow> decodeURIComponent str = Some str"
  by (induction str) auto

subsection \<open>The example states, evaluated\<close>

lemma tok_ab: "Buffer_toString_hex [0xAB] = ''ab''"
  by (simp add: Buffer_toString_hex_def byte_hex_def hex_digit_def)

lemma tok_cd: "Buffer_toString_hex [0xCD] = ''cd''"
  by (simp add: Buffer_toString_hex_def byte_hex_def hex_digit_def)

lemmas run_eval = run_def generateTempToken_def exchangeTempToken_def not_found_def fire_def
  setTimeout_def Let_def Map_get_def Map_set_def Map_delete_def TOKEN_EXPIRY_def
  CONSUMED_TOKEN_RETENTION_def toISOString_throws_def start_def tok_ab tok_cd

lemma example_pending_eq:
  "example_pending =
     \<lparr>tempTokenStore = [(''ab'', \<lparr>stored.data = example_payload, expiresAt = 900000\<rparr>)],
      consumedTokens = [],
      timers = [\<lparr>due = 900000, callback = DeleteTemp ''ab''\<rparr>],
      now = 5000\<rparr>"
  by (simp add: example_pending_def run_eval)

lemma example_consumed_eq:
  "example_consumed =
     \<lparr>tempTokenStore = [],
      consumedTokens = [(''ab'', \<lparr>consumed.data = example_payload, consumedAt = 5000\<rparr>)],
      timers = [\<lparr>due = 900000, callback = DeleteTemp ''ab''\<rparr>,
                \<lparr>due = 65000, callback = DeleteConsumed ''ab''\<rparr>],
      now = 5000\<rparr>"
  by (simp add: example_consumed_def example_pending_eq run_eval)

lemma example_expired_eq:
  "example_expired =
     \<lparr>tempTokenStore = [(''ab'', \<lparr>stored.data = example_payload, expiresAt = 900000\<rparr>)],
      consumedTokens = [],
      timers = [\<lparr>due = 900000, callback = DeleteTemp ''ab''\<rparr>],
      now = 900001\<rparr>"
  by (simp add: example_expired_def example_pending_eq run_eval)

lemma example_purged_eq:
  "example_purged = \<lparr>tempTokenStore = [], consumedTokens = [], timers = [], now = 900000\<rparr>"
  by (simp add: example_purged_def run_eval)

lemma example_null_eq:
  "example_null =
     \<lparr>tempTokenStore = [(''ab'', \<lparr>stored.data = JNull, expiresAt = 900000\<rparr>)],
      consumedTokens = [],
      timers = [\<lparr>due = 900000, callback = DeleteTemp ''ab''\<rparr>],
      now = 0\<rparr>"
  by (simp add: example_null_def run_eval)

section \<open>The claims\<close>

subsection \<open>Redeeming a pending token\<close>

text \<open>
  C1 (amended). A token \<open>T\<close> is issued by \<^verbatim>\<open>generateTempToken\<close> with payload \<open>P\<close> (no
  purge of the same string is queued from before). After any sequence of operations
  that neither issues the same string again nor calls \<^verbatim>\<open>exchangeTempToken\<close> on \<open>T\<close>,
  the first call of \<^verbatim>\<open>exchangeTempToken\<close> on \<open>T\<close>, made strictly before \<open>expiresAt\<close>, or at
  \<open>expiresAt\<close> itself while the purge timer has not removed \<open>T\<close> yet, returns \<open>P\<close>,
  removes \<open>T\<close> from the pending store and records it in the consumed cache with
  \<open>consumedAt\<close> set to the current time.
\<close>

theorem exchange_fresh_token:
  assumes "\<not> toISOString_throws (now s0 + 900000)"
    and "DeleteTemp (Buffer_toString_hex randomBytes) \<notin> set (map callback (timers s0))"
    and "list_all (\<lambda>ev. \<not> issues (Buffer_toString_hex randomBytes) ev
                        \<and> ev \<noteq> Exchange (Buffer_toString_hex randomBytes)) evs"
    and "now (run evs (snd (generateTempToken randomBytes P s0))) < now s0 + 900000
       \<or> (now (run evs (snd (generateTempToken randomBytes P s0))) = now s0 + 900000
          \<and> Map_get (tempTokenStore (run evs (snd (generateTempToken randomBytes P s0))))
               (Buffer_toString_hex randomBytes) \<noteq> None)"
  shows "fst (exchangeTempToken (Buffer_toString_hex randomBytes)
                (run evs (snd (generateTempToken randomBytes P s0)))) = Inr P
       \<and> Map_get (tempTokenStore (snd (exchangeTempToken (Buffer_toString_hex randomBytes)
                (run evs (snd (generateTempToken randomBytes P s0))))))
           (Buffer_toString_hex randomBytes) = None
       \<and> Map_get (consumedTokens (snd (exchangeTempToken (Buffer_toString_hex randomBytes)
                (run evs (snd (generateTempToken randomBytes P s0))))))
           (Buffer_toString_hex randomBytes)
           = Some \<lparr>consumed.data = P,
                   consumedAt = now (run evs (snd (generateTempToken randomBytes P s0)))\<rparr>"
proof -
  let ?T = "Buffer_toString_hex randomBytes"
  let ?e = "now s0 + 900000"
  let ?s1 = "snd (generateTempToken randomBytes P s0)"
  let ?s = "run evs ?s1"
  have w: "waiting ?T P ?e ?s1" using assms(1,2) by (rule waiting_after_generate)
  have pending: "Map_get (tempTokenStore ?s) ?T = Some \<lparr>stored.data = P, expiresAt = ?e\<rparr>"
  proof (cases "now ?s < ?e")
    case True
    with assms(3) w have "waiting ?T P ?e ?s" by (rule waiting_run)
    then show ?thesis by (simp add: waiting_def)
  next
    case False
    with assms(4) have ne: "Map_get (tempTokenStore ?s) ?T \<noteq> None" by auto
    from assms(3) have "list_all (\<lambda>ev. \<not> issues ?T ev) evs" by (simp add: list_all_iff)
    then have "Map_get (tempTokenStore ?s) ?T = None
        \<or> Map_get (tempTokenStore ?s) ?T = Map_get (tempTokenStore ?s1) ?T"
      by (rule entry_kept_run)
    with ne w show ?thesis by (auto simp add: waiting_def)
  qed
  from assms(4) have le: "now ?s \<le> ?e" by auto
  show ?thesis
    by (simp add: exchange_pending [OF pending assms(1) le] Map_get_set Map_get_delete)
qed

theorem exchange_fresh_token_witness:
  "\<not> toISOString_throws (now (start 0) + 900000)
   \<and> DeleteTemp (Buffer_toString_hex [0xAB]) \<notin> set (map callback (timers (start 0)))
   \<and> list_all (\<lambda>ev. \<not> issues (Buffer_toString_hex [0xAB]) ev
                     \<and> ev \<noteq> Exchange (Buffer_toString_hex [0xAB]))
        [Advance 5000, Exchange ''cd'', Generate [0xCD] JNull]
   \<and> now (run [Advance 5000, Exchange ''cd'', Generate [0xCD] JNull]
             (snd (generateTempToken [0xAB] example_payload (start 0)))) < now (start 0) + 900000
   \<and> fst (exchangeTempToken ''ab''
        (run [Advance 5000, Exchange ''cd'', Generate [0xCD] JNull]
           (snd (generateTempToken [0xAB] example_payload (start 0))))) = Inr example_payload
   \<and> now (run [Advance 900000] (snd (generateTempToken [0xAB] example_payload (start 0))))
       = now (start 0) + 900000
   \<and> Map_get (tempTokenStore
        (run [Advance 900000] (snd (generateTempToken [0xAB] example_payload (start 0))))) ''ab''
       \<noteq> None
   \<and> fst (exchangeTempToken ''ab''
        (run [Advance 900000] (snd (generateTempToken [0xAB] example_payload (start 0)))))
       = Inr example_payload
   \<and> Map_get (consumedTokens (snd (exchangeTempToken ''ab''
        (run [Advance 900000] (snd (generateTempToken [0xAB] example_payload (start 0)))))))
        ''ab''
       = Some \<lparr>consumed.data = example_payload, consumedAt = 900000\<rparr>"
proof -
  let ?s1 = "snd (generateTempToken [0xAB] example_payload (start 0))"
  let ?evs = "[Advance 5000, Exchange ''cd'', Generate [0xCD] JNull]"
  have h1: "\<not> toISOString_throws (now (start 0) + 900000)"
    by (simp add: toISOString_throws_def start_def)
  have h2: "DeleteTemp (Buffer_toString_hex [0xAB]) \<notin> set (map callback (timers (start 0)))"
    by (simp add: start_def)
  have h3: "list_all (\<lambda>ev. \<not> issues (Buffer_toString_hex [0xAB]) ev
                     \<and> ev \<noteq> Exchange (Buffer_toString_hex [0xAB])) ?evs"
    by (simp add: tok_ab tok_cd)
  have h3': "list_all (\<lambda>ev. \<not> issues (Buffer_toString_hex [0xAB]) ev
                     \<and> ev \<noteq> Exchange (Buffer_toString_hex [0xAB])) [Advance 900000]"
    by simp
  have t1: "now (run ?evs ?s1) < now (start 0) + 900000" by (simp add: run_eval)
  have t2: "now (run [Advance 900000] ?s1) = now (start 0) + 900000" by (simp add: run_eval)
  have p2: "Map_get (tempTokenStore (run [Advance 900000] ?s1)) (Buffer_toString_hex [0xAB]) \<noteq> None"
    by (simp add: run_eval)
  have h4: "now (run ?evs ?s1) < now (start 0) + 900000
       \<or> (now (run ?evs ?s1) = now (start 0) + 900000
          \<and> Map_get (tempTokenStore (run ?evs ?s1)) (Buffer_toString_hex [0xAB]) \<noteq> None)"
    using t1 by simp
  have h4': "now (run [Advance 900000] ?s1) < now (start 0) + 900000
       \<or> (now (run [Advance 900000] ?s1) = now (start 0) + 900000
          \<and> Map_get (tempTokenStore (run [Advance 900000] ?s1)) (Buffer_toString_hex [0xAB]) \<noteq> None)"
    using t2 p2 by simp
  have n: "now (run [Advance 900000] ?s1) = 900000" by (simp add: run_eval)
  show ?thesis
    using exchange_fresh_token [OF h1 h2 h3 h4] exchange_fresh_token [OF h1 h2 h3' h4'] h1 h2 h3 t1 t2 p2
    by (simp add: tok_ab n)
qed

text \<open>
  C1 (as first stated) covers every first call made not later than \<open>expiresAt\<close>. The
  purge timer set at issuance is due at \<open>expiresAt\<close>, and the expiry test of
  \<^verbatim>\<open>exchangeTempToken\<close> is \<^verbatim>\<open>Date.now() > stored.expiresAt\<close>: when the timer has run, a
  first call at the instant \<open>expiresAt\<close> finds nothing and returns \<^verbatim>\<open>null\<close>.
\<close>

theorem exchange_at_expiry_after_purge:
  "fst (generateTempToken [0xAB] example_payload (start 0)) = Inr ''ab''
   \<and> Map_get (tempTokenStore (snd (generateTempToken [0xAB] example_payload (start 0)))) ''ab''
       = Some \<lparr>stored.data = example_payload, expiresAt = 900000\<rparr>
   \<and> example_purged = run [Advance 900000, Fire 0]
                         (snd (generateTempToken [0xAB] example_payload (start 0)))
   \<and> now example_purged \<le> 900000
   \<and> fst (exchangeTempToken ''ab'' example_purged) = Inr JNull
   \<and> fst (exchangeTempToken ''ab'' example_purged) \<noteq> Inr example_payload"
  by (simp add: example_purged_eq example_payload_def run_eval)

subsection \<open>Redeeming again within the retention\<close>



subsection \<open>Expiry without redemption\<close>

text \<open>
  C3. A token \<open>T\<close> that was issued and never redeemed (it is not in the consumed cache),
  once the clock is strictly past its \<open>expiresAt\<close>: every later call of
  \<^verbatim>\<open>exchangeTempToken\<close> on \<open>T\<close>, after any sequence of operations that does not issue
  the same token string again, returns \<^verbatim>\<open>null\<close> and leaves \<open>T\<close> in neither map, so
  the payload cannot be retrieved from then on. Nor does the entry stay: at any such
  time \<open>T\<close> is already out of the pending store, or the purge timer set at issuance is
  in the queue, overdue, and removes \<open>T\<close> when it runs. (\<open>store_ok\<close> and
  \<open>purge_queued\<close> hold in every state reached from the empty store.)
\<close>

theorem expired_token_stays_unredeemable:
  assumes "store_ok s"
    and "purge_queued s"
    and "Map_get (consumedTokens s) T = None"
    and "case Map_get (tempTokenStore s) T of None \<Rightarrow> True | Some st \<Rightarrow> expiresAt st < now s"
    and "list_all (\<lambda>ev. \<not> issues T ev) evs"
  shows "fst (exchangeTempToken T (run evs s)) = Inr JNull
       \<and> Map_get (tempTokenStore (snd (exchangeTempToken T (run evs s)))) T = None
       \<and> Map_get (consumedTokens (snd (exchangeTempToken T (run evs s)))) T = None
       \<and> (Map_get (tempTokenStore (run evs s)) T = None
          \<or> (\<exists>i<length (timers (run evs s)).
                callback (timers (run evs s) ! i) = DeleteTemp T
                \<and> due (timers (run evs s) ! i) < now (run evs s)
                \<and> Map_get (tempTokenStore (fire i (run evs s))) T = None))"
proof -
  have "lapsed T s" using assms(3,4) by (simp add: lapsed_def)
  with assms(5) have l: "lapsed T (run evs s)" by (rule lapsed_run)
  have ok: "store_ok (run evs s)" using assms(1) by (rule store_ok_run)
  have pq: "purge_queued (run evs s)" using assms(2) by (rule purge_queued_run)
  from exchange_lapsed [OF ok l] purge_due [OF pq l] show ?thesis by simp
qed

theorem expired_token_stays_unredeemable_witness:
  "store_ok example_expired
   \<and> purge_queued example_expired
   \<and> Map_get (consumedTokens example_expired) ''ab'' = None
   \<and> (case Map_get (tempTokenStore example_expired) ''ab'' of
         None \<Rightarrow> True | Some st \<Rightarrow> expiresAt st < now example_expired)
   \<and> list_all (\<lambda>ev. \<not> issues ''ab'' ev) [Exchange ''ab'', Fire 0, Generate [0xCD] JNull]
   \<and> fst (exchangeTempToken ''ab''
        (run [Exchange ''ab'', Fire 0, Generate [0xCD] JNull] example_expired)) = Inr JNull
   \<and> fst (exchangeTempToken ''ab'' (run [] example_expired)) = Inr JNull
   \<and> Map_get (tempTokenStore (run [] example_expired)) ''ab'' \<noteq> None
   \<and> (\<exists>i<length (timers (run [] example_expired)).
         callback (timers (run [] example_expired) ! i) = DeleteTemp ''ab''
         \<and> due (timers (run [] example_expired) ! i) < now (run [] example_expired)
         \<and> Map_get (tempTokenStore (fire i (run [] example_expired))) ''ab'' = None)"
proof -
  have h1: "store_ok example_expired"
    by (simp add: example_expired_eq store_ok_def toISOString_throws_def)
  have h2: "purge_queued example_expired"
    by (simp add: example_expired_eq purge_queued_def)
  have h3: "Map_get (consumedTokens example_expired) ''ab'' = None"
    by (simp add: example_expired_eq Map_get_def)
  have h4: "case Map_get (tempTokenStore example_expired) ''ab'' of
         None \<Rightarrow> True | Some st \<Rightarrow> expiresAt st < now example_expired"
    by (simp add: example_expired_eq Map_get_def)
  have h5: "list_all (\<lambda>ev. \<not> issues ''ab'' ev) [Exchange ''ab'', Fire 0, Generate [0xCD] JNull]"
    by (simp add: tok_cd)
  have h6: "list_all (\<lambda>ev. \<not> issues ''ab'' ev) []" by simp
  have still: "Map_get (tempTokenStore (run [] example_expired)) ''ab'' \<noteq> None"
    by (simp add: run_def example_expired_eq Map_get_def)
  show ?thesis
    using expired_token_stays_unredeemable [OF h1 h2 h3 h4 h5] expired_token_stays_unredeemable [OF h1 h2 h3 h4 h6] h1 h2 h3 h4 h5 still by simp
qed

subsection \<open>A consumed token after the retention\<close>

text \<open>
  C4. A token \<open>T\<close> that was redeemed at time \<open>c\<close> (it has left the pending store and the
  consumed cache holds it with \<open>consumedAt = c\<close>): every call of
  \<^verbatim>\<open>exchangeTempToken\<close> on \<open>T\<close> made 60 seconds after \<open>c\<close> or later returns \<^verbatim>\<open>null\<close>
  and leaves \<open>T\<close> out of the consumed cache.
\<close>

theorem consumed_token_after_grace:
  assumes "store_ok s"
    and "Map_get (tempTokenStore s) T = None"
    and "Map_get (consumedTokens s) T = Some \<lparr>consumed.data = P, consumedAt = c\<rparr>"
    and "list_all (\<lambda>ev. \<not> issues T ev) evs"
    and "c + 60000 \<le> now (run evs s)"
  shows "fst (exchangeTempToken T (run evs s)) = Inr JNull
       \<and> Map_get (consumedTokens (snd (exchangeTempToken T (run evs s)))) T = None"
proof -
  have "spent T c s" using assms(2,3) by (simp add: spent_def)
  with assms(4) have "spent T c (run evs s)" by (rule spent_run)
  moreover have "store_ok (run evs s)" using assms(1) by (rule store_ok_run)
  ultimately show ?thesis using assms(5) by (rule_tac exchange_spent)
qed

theorem consumed_token_after_grace_witness:
  "store_ok example_consumed
   \<and> Map_get (tempTokenStore example_consumed) ''ab'' = None
   \<and> Map_get (consumedTokens example_consumed) ''ab''
       = Some \<lparr>consumed.data = example_payload, consumedAt = 5000\<rparr>
   \<and> list_all (\<lambda>ev. \<not> issues ''ab'' ev) [Exchange ''ab'', Advance 65000]
   \<and> 5000 + 60000 \<le> now (run [Exchange ''ab'', Advance 65000] example_consumed)
   \<and> fst (exchangeTempToken ''ab'' example_consumed) = Inr example_payload
   \<and> fst (exchangeTempToken ''ab'' (run [Exchange ''ab'', Advance 65000] example_consumed))
       = Inr JNull
   \<and> Map_get (consumedTokens (snd (exchangeTempToken ''ab''
        (run [Exchange ''ab'', Advance 65000] example_consumed)))) ''ab'' = None"
proof -
  have h1: "store_ok example_consumed" by (simp add: example_consumed_eq store_ok_def)
  have h2: "Map_get (tempTokenStore example_consumed) ''ab'' = None"
    by (simp add: example_consumed_eq Map_get_def)
  have h3: "Map_get (consumedTokens example_consumed) ''ab''
       = Some \<lparr>consumed.data = example_payload, consumedAt = 5000\<rparr>"
    by (simp add: example_consumed_eq Map_get_def)
  have h4: "list_all (\<lambda>ev. \<not> issues ''ab'' ev) [Exchange ''ab'', Advance 65000]" by simp
  have h5: "5000 + 60000 \<le> now (run [Exchange ''ab'', Advance 65000] example_consumed)"
    by (simp add: example_consumed_eq run_eval)
  have before: "fst (exchangeTempToken ''ab'' example_consumed) = Inr example_payload"
    by (simp add: example_consumed_eq run_eval)
  show ?thesis
    using consumed_token_after_grace [OF h1 h2 h3 h4 h5] h1 h2 h3 h4 h5 before by simp
qed

subsection \<open>The email-verification gate\<close>

text \<open>
  C5. The case analysis of \<^verbatim>\<open>EmailVerificationMiddleware.execute\<close>: without a user id
  on the request it answers 401 and looks nothing up; otherwise it looks the user up
  once and answers 500 when the lookup fails, 404 when there is no such user, 403 with
  the fixed message when \<open>emailVerified\<close> is unset, and calls \<^verbatim>\<open>next()\<close> when it is set.
\<close>

theorem gate_case_analysis:
  "(no_user_id req \<longrightarrow>
      execute req db
        = (Responded \<lparr>status = 401, body = error_body 401 ''Authentication required''\<rparr>, []))
   \<and> (\<forall>p. user req = Some p \<and> sub p \<noteq> [] \<longrightarrow>
        snd (execute req db) = [sub p]
        \<and> (findById db (sub p) = Inl QueryFailed \<longrightarrow>
              fst (execute req db)
                = Responded \<lparr>status = 500, body = error_body 500 ''Failed to verify email status''\<rparr>)
        \<and> (findById db (sub p) = Inr None \<longrightarrow>
              fst (execute req db)
                = Responded \<lparr>status = 404, body = error_body 404 ''User not found''\<rparr>)
        \<and> (\<forall>u. findById db (sub p) = Inr (Some u) \<longrightarrow>
              (emailVerified u = None \<longrightarrow>
                 fst (execute req db) = Responded \<lparr>status = 403, body = error_body 403
                   ''Email verification required. Please verify your email to participate in discussions and favorites.''\<rparr>)
              \<and> (emailVerified u \<noteq> None \<longrightarrow> fst (execute req db) = Next)))"
  by (cases "findById db (sub (the (user req)))")
     (auto simp add: no_user_id_def execute_def split: option.splits sum.splits db_error.splits)

theorem gate_case_analysis_witness:
  "no_user_id \<lparr>user = None\<rparr>
   \<and> execute \<lparr>user = None\<rparr> example_db
       = (Responded \<lparr>status = 401, body = error_body 401 ''Authentication required''\<rparr>, [])
   \<and> findById (example_db\<lparr>reachable := False\<rparr>) ''u1'' = Inl QueryFailed
   \<and> execute (request_of ''u1'') (example_db\<lparr>reachable := False\<rparr>)
       = (Responded \<lparr>status = 500, body = error_body 500 ''Failed to verify email status''\<rparr>, [''u1''])
   \<and> findById example_db ''u9'' = Inr None
   \<and> execute (request_of ''u9'') example_db
       = (Responded \<lparr>status = 404, body = error_body 404 ''User not found''\<rparr>, [''u9''])
   \<and> map_option emailVerified (find (\<lambda>u. user_id u = ''u2'') (users example_db)) = Some None
   \<and> execute (request_of ''u2'') example_db
       = (Responded \<lparr>status = 403, body = error_body 403
           ''Email verification required. Please verify your email to participate in discussions and favorites.''\<rparr>,
          [''u2''])
   \<and> map_option emailVerified (find (\<lambda>u. user_id u = ''u1'') (users example_db)) = Some (Some 2000)
   \<and> execute (request_of ''u1'') example_db = (Next, [''u1''])"
proof -
  have a: "no_user_id \<lparr>user = None\<rparr>" by (simp add: no_user_id_def)
  have b: "findById (example_db\<lparr>reachable := False\<rparr>) ''u1'' = Inl QueryFailed"
    by (simp add: findById_def)
  have c: "findById example_db ''u9'' = Inr None"
    by (simp add: findById_def example_db_def)
  have d: "findById example_db ''u2'' = Inr (Some (users example_db ! 1))"
    by (simp add: findById_def example_db_def)
  have e: "findById example_db ''u1'' = Inr (Some (users example_db ! 0))"
    by (simp add: findById_def example_db_def)
  have dv: "emailVerified (users example_db ! 1) = None"
    and ev: "emailVerified (users example_db ! 0) = Some 2000"
    by (simp_all add: example_db_def)
  have u: "\<And>uid. user (request_of uid) = Some \<lparr>sub = uid, role = ''CUSTOMER''\<rparr>"
    by (simp add: request_of_def)
  have 1: "execute \<lparr>user = None\<rparr> example_db
       = (Responded \<lparr>status = 401, body = error_body 401 ''Authentication required''\<rparr>, [])"
    using gate_case_analysis [of "\<lparr>user = None\<rparr>" example_db] a by simp
  have 2: "execute (request_of ''u1'') (example_db\<lparr>reachable := False\<rparr>)
       = (Responded \<lparr>status = 500, body = error_body 500 ''Failed to verify email status''\<rparr>, [''u1''])"
    using gate_case_analysis [of "request_of ''u1''" "example_db\<lparr>reachable := False\<rparr>"] b
    by (simp add: u prod_eq_iff)
  have 3: "execute (request_of ''u9'') example_db
       = (Responded \<lparr>status = 404, body = error_body 404 ''User not found''\<rparr>, [''u9''])"
    using gate_case_analysis [of "request_of ''u9''" example_db] c
    by (simp add: u prod_eq_iff)
  have 4: "execute (request_of ''u2'') example_db
       = (Responded \<lparr>status = 403, body = error_body 403
           ''Email verification required. Please verify your email to participate in discussions and favorites.''\<rparr>,
          [''u2''])"
    using gate_case_analysis [of "request_of ''u2''" example_db] d dv
    by (simp add: u prod_eq_iff)
  have 5: "execute (request_of ''u1'') example_db = (Next, [''u1''])"
    using gate_case_analysis [of "request_of ''u1''" example_db] e ev
    by (simp add: u prod_eq_iff)
  have f: "map_option emailVerified (find (\<lambda>u. user_id u = ''u2'') (users example_db)) = Some None"
    "map_option emailVerified (find (\<lambda>u. user_id u = ''u1'') (users example_db)) = Some (Some 2000)"
    by (simp_all add: example_db_def)
  from a b c 1 2 3 4 5 f show ?thesis by simp
qed

subsection \<open>Tokens that were never issued\<close>

text \<open>
  C6. In every state the store can reach from empty, \<^verbatim>\<open>exchangeTempToken\<close> on a string
  \<open>S\<close> that no \<^verbatim>\<open>generateTempToken\<close> call has returned gives \<^verbatim>\<open>null\<close> and changes
  nothing. Strings are compared as they are: a string that differs from the issued
  token only in case or in URI escaping redeems nothing.
\<close>

theorem never_issued_not_found:
  assumes "list_all (\<lambda>ev. \<not> issues S ev) evs"
  shows "exchangeTempToken S (run evs (start t0)) = (Inr JNull, run evs (start t0))"
proof -
  have "Map_get (tempTokenStore (start t0)) S = None" "Map_get (consumedTokens (start t0)) S = None"
    by (simp_all add: start_def Map_get_def)
  with assms have "Map_get (tempTokenStore (run evs (start t0))) S = None
      \<and> Map_get (consumedTokens (run evs (start t0))) S = None"
    by (rule absent_run)
  moreover have "store_ok (run evs (start t0))"
    by (rule store_ok_run) (rule store_ok_start)
  ultimately show ?thesis by (simp add: exchange_absent)
qed

theorem never_issued_not_found_witness:
  "list_all (\<lambda>ev. \<not> issues ''AB'' ev) [Generate [0xAB] example_payload, Advance 5000]
   \<and> list_all (\<lambda>ev. \<not> issues ''%61b'' ev) [Generate [0xAB] example_payload, Advance 5000]
   \<and> exchangeTempToken ''AB'' example_pending = (Inr JNull, example_pending)
   \<and> exchangeTempToken ''%61b'' example_pending = (Inr JNull, example_pending)
   \<and> fst (exchangeTempToken ''ab'' example_pending) = Inr example_payload"
proof -
  have h1: "list_all (\<lambda>ev. \<not> issues ''AB'' ev) [Generate [0xAB] example_payload, Advance 5000]"
    by (simp add: tok_ab)
  have h2: "list_all (\<lambda>ev. \<not> issues ''%61b'' ev) [Generate [0xAB] example_payload, Advance 5000]"
    by (simp add: tok_ab)
  have issued: "fst (exchangeTempToken ''ab'' example_pending) = Inr example_payload"
    by (simp add: example_pending_eq run_eval)
  show ?thesis
    using never_issued_not_found [OF h1, of 0] never_issued_not_found [OF h2, of 0] h1 h2 issued
    by (simp add: example_pending_def)
qed

subsection \<open>Issuing a token\<close>

text \<open>
  C7. \<^verbatim>\<open>generateTempToken(payload)\<close> called at time \<open>t\<close> returns the hexadecimal form of
  the random bytes and leaves the pending store mapping that token to the payload with
  \<open>expiresAt = t + 15 minutes\<close>; other tokens and the consumed cache are untouched, and
  one timer is added that deletes the entry and is due exactly at \<open>expiresAt\<close>: run
  before that time it does nothing, from that time on it removes the entry.
\<close>

theorem generate_stores_entry:
  assumes "\<not> toISOString_throws (now s + 15 * 60 * 1000)"
  shows "fst (generateTempToken randomBytes payload s) = Inr (Buffer_toString_hex randomBytes)
       \<and> Map_get (tempTokenStore (snd (generateTempToken randomBytes payload s)))
             (Buffer_toString_hex randomBytes)
           = Some \<lparr>stored.data = payload, expiresAt = now s + 15 * 60 * 1000\<rparr>
       \<and> (\<forall>k. k \<noteq> Buffer_toString_hex randomBytes \<longrightarrow>
             Map_get (tempTokenStore (snd (generateTempToken randomBytes payload s))) k
               = Map_get (tempTokenStore s) k)
       \<and> consumedTokens (snd (generateTempToken randomBytes payload s)) = consumedTokens s
       \<and> timers (snd (generateTempToken randomBytes payload s))
           = timers s @ [\<lparr>due = now s + 15 * 60 * 1000,
                           callback = DeleteTemp (Buffer_toString_hex randomBytes)\<rparr>]
       \<and> (\<forall>t. Map_get (tempTokenStore
                  (fire (length (timers s))
                     ((snd (generateTempToken randomBytes payload s))\<lparr>now := t\<rparr>)))
                (Buffer_toString_hex randomBytes)
              = (if now s + 15 * 60 * 1000 \<le> t then None
                 else Some \<lparr>stored.data = payload, expiresAt = now s + 15 * 60 * 1000\<rparr>))"
  using assms
  by (simp add: generateTempToken_def Let_def setTimeout_def TOKEN_EXPIRY_def Map_get_set
      fire_def Map_get_delete nth_append)

theorem generate_stores_entry_witness:
  "\<not> toISOString_throws (now (start 0) + 15 * 60 * 1000)
   \<and> fst (generateTempToken [0xAB] example_payload (start 0)) = Inr ''ab''
   \<and> Map_get (tempTokenStore (snd (generateTempToken [0xAB] example_payload (start 0)))) ''ab''
       = Some \<lparr>stored.data = example_payload, expiresAt = 900000\<rparr>
   \<and> timers (snd (generateTempToken [0xAB] example_payload (start 0)))
       = [\<lparr>due = 900000, callback = DeleteTemp ''ab''\<rparr>]"
proof -
  have h: "\<not> toISOString_throws (now (start 0) + 15 * 60 * 1000)"
    by (simp add: toISOString_throws_def start_def)
  have n: "now (start 0) = 0" "timers (start 0) = []" by (simp_all add: start_def)
  show ?thesis using generate_stores_entry [OF h, of "[0xAB]" example_payload] h
    by (simp add: tok_ab n)
qed

subsection \<open>No exception from the exchange\<close>

text \<open>
  C8. In every state the store can reach from empty and for every input string,
  \<^verbatim>\<open>exchangeTempToken\<close> returns a value and does not throw; unless a payload is
  redeemable for the string, the value is \<^verbatim>\<open>null\<close>.
\<close>

theorem exchange_never_throws:
  "(\<exists>v. fst (exchangeTempToken tok (run evs (start t0))) = Inr v)
   \<and> (redeemable tok (run evs (start t0))
       \<or> fst (exchangeTempToken tok (run evs (start t0))) = Inr JNull)"
proof -
  have ok: "store_ok (run evs (start t0))" by (rule store_ok_run) (rule store_ok_start)
  show ?thesis using exchange_total [OF ok] exchange_not_redeemable [OF ok] by blast
qed

theorem exchange_never_throws_witness:
  "fst (exchangeTempToken ''never issued'' example_pending) = Inr JNull
   \<and> \<not> redeemable ''ab'' example_expired
   \<and> fst (exchangeTempToken ''ab'' example_expired) = Inr JNull
   \<and> redeemable ''ab'' example_consumed
   \<and> fst (exchangeTempToken ''ab'' example_consumed) = Inr example_payload"
proof -
  have a: "\<not> redeemable ''never issued'' example_pending"
    by (simp add: redeemable_def example_pending_eq Map_get_def)
  have b: "\<not> redeemable ''ab'' example_expired"
    by (simp add: redeemable_def example_expired_eq Map_get_def)
  have c: "redeemable ''ab'' example_consumed"
    by (simp add: redeemable_def example_consumed_eq Map_get_def)
  have d: "fst (exchangeTempToken ''ab'' example_consumed) = Inr example_payload"
    by (simp add: example_consumed_eq run_eval)
  have p: "example_pending = run [Generate [0xAB] example_payload, Advance 5000] (start 0)"
    by (simp add: example_pending_def)
  have x: "example_expired
      = run [Generate [0xAB] example_payload, Advance 5000, Advance 900001] (start 0)"
    by (simp add: example_expired_def example_pending_def run_def)
  show ?thesis
    using exchange_never_throws [of "''never issued''"
        "[Generate [0xAB] example_payload, Advance 5000]" 0]
      exchange_never_throws [of "''ab''"
        "[Generate [0xAB] example_payload, Advance 5000, Advance 900001]" 0]
      a b c d
    unfolding p [symmetric] x [symmetric] by simp
qed

subsection \<open>A falsy payload at the exchange route\<close>

text \<open>
  C9. A token \<open>T\<close> issued with a falsy payload (\<^verbatim>\<open>null\<close>, \<open>0\<close>, the empty string, ...)
  and presented to the exchange route while still fresh gets the 400 response of a
  failed exchange: the very response that a never-issued string \<open>S\<close> gets from the
  store as the call leaves it.
\<close>

theorem falsy_payload_reported_as_not_found:
  assumes "\<not> truthy P"
    and "store_ok s"
    and "randomBytes \<noteq> []"
    and "Map_get (tempTokenStore s) (Buffer_toString_hex randomBytes)
           = Some \<lparr>stored.data = P, expiresAt = e\<rparr>"
    and "now s \<le> e"
    and "S \<noteq> []"
    and "Map_get (tempTokenStore
           (snd (oauth_exchange (QString (Buffer_toString_hex randomBytes)) s))) (decode_code S) = None"
    and "Map_get (consumedTokens
           (snd (oauth_exchange (QString (Buffer_toString_hex randomBytes)) s))) (decode_code S) = None"
  shows "fst (oauth_exchange (QString (Buffer_toString_hex randomBytes)) s)
           = Inr (exchange_failed (getTempTokenStoreSize
                (snd (oauth_exchange (QString (Buffer_toString_hex randomBytes)) s))))
       \<and> status (exchange_failed (getTempTokenStoreSize
                (snd (oauth_exchange (QString (Buffer_toString_hex randomBytes)) s)))) = 400
       \<and> fst (oauth_exchange (QString S)
                (snd (oauth_exchange (QString (Buffer_toString_hex randomBytes)) s)))
           = fst (oauth_exchange (QString (Buffer_toString_hex randomBytes)) s)"
proof -
  let ?T = "Buffer_toString_hex randomBytes"
  have "length ?T = 2 * length randomBytes" by (rule length_hex)
  with assms(3) have T: "?T \<noteq> []" by auto
  have "CHR ''%'' \<notin> set ?T" using set_hex [of randomBytes] hex_unreserved by blast
  then have dc: "decode_code ?T = ?T" by (simp add: decode_code_def decode_no_percent)
  have ne: "\<not> toISOString_throws e"
    using store_ok_pending [OF assms(2,4)] by simp
  have ex: "fst (exchangeTempToken ?T s) = Inr P"
    by (simp add: exchange_pending [OF assms(4) ne assms(5)])
  obtain r s' where rs: "exchangeTempToken ?T s = (r, s')" by (cases "exchangeTempToken ?T s")
  with ex have r: "r = Inr P" by simp
  have first: "oauth_exchange (QString ?T) s = (Inr (exchange_failed (getTempTokenStoreSize s')), s')"
    using assms(1) T by (simp add: oauth_exchange_def dc rs r)
  have ok: "store_ok s'" using store_ok_exchange [OF assms(2), of ?T] by (simp add: rs)
  have "exchangeTempToken (decode_code S) s' = (Inr JNull, s')"
    using ok assms(7,8) by (simp add: first exchange_absent)
  then have second: "oauth_exchange (QString S) s' = (Inr (exchange_failed (getTempTokenStoreSize s')), s')"
    using assms(6) by (simp add: oauth_exchange_def)
  show ?thesis by (simp add: first second exchange_failed_def)
qed

theorem falsy_payload_reported_as_not_found_witness:
  "\<not> truthy JNull
   \<and> store_ok example_null
   \<and> [0xAB :: 8 word] \<noteq> []
   \<and> Buffer_toString_hex [0xAB] = ''ab''
   \<and> Map_get (tempTokenStore example_null) ''ab'' = Some \<lparr>stored.data = JNull, expiresAt = 900000\<rparr>
   \<and> now example_null \<le> 900000
   \<and> ''zz'' \<noteq> []
   \<and> Map_get (tempTokenStore (snd (oauth_exchange (QString ''ab'') example_null)))
        (decode_code ''zz'') = None
   \<and> Map_get (consumedTokens (snd (oauth_exchange (QString ''ab'') example_null)))
        (decode_code ''zz'') = None
   \<and> fst (oauth_exchange (QString ''ab'') example_null)
       = Inr \<lparr>status = 400, body = error_body 400
           ''Authentication code expired or invalid. The server may have restarted. Please try logging in again.''\<rparr>
   \<and> fst (oauth_exchange (QString ''zz'') (snd (oauth_exchange (QString ''ab'') example_null)))
       = fst (oauth_exchange (QString ''ab'') example_null)"
proof -
  have h1: "\<not> truthy JNull" by simp
  have h2: "store_ok example_null"
    by (simp add: example_null_eq store_ok_def toISOString_throws_def)
  have h3: "[0xAB :: 8 word] \<noteq> []" by simp
  have h4: "Map_get (tempTokenStore example_null) (Buffer_toString_hex [0xAB])
      = Some \<lparr>stored.data = JNull, expiresAt = 900000\<rparr>"
    by (simp add: example_null_eq Map_get_def tok_ab)
  have h5: "now example_null \<le> 900000" by (simp add: example_null_eq)
  have h6: "''zz'' \<noteq> []" by simp
  have ab: "decode_code ''ab'' = ''ab''" and zz: "decode_code ''zz'' = ''zz''"
    by (simp_all add: decode_code_def)
  have post: "snd (oauth_exchange (QString ''ab'') example_null) =
     \<lparr>tempTokenStore = [],
      consumedTokens = [(''ab'', \<lparr>consumed.data = JNull, consumedAt = 0\<rparr>)],
      timers = [\<lparr>due = 900000, callback = DeleteTemp ''ab''\<rparr>,
                \<lparr>due = 60000, callback = DeleteConsumed ''ab''\<rparr>],
      now = 0\<rparr>"
    by (simp add: oauth_exchange_def ab example_null_eq run_eval getTempTokenStoreSize_def)
  have h7: "Map_get (tempTokenStore (snd (oauth_exchange (QString (Buffer_toString_hex [0xAB]))
        example_null))) (decode_code ''zz'') = None"
    by (simp add: tok_ab post zz Map_get_def)
  have h8: "Map_get (consumedTokens (snd (oauth_exchange (QString (Buffer_toString_hex [0xAB]))
        example_null))) (decode_code ''zz'') = None"
    by (simp add: tok_ab post zz Map_get_def)
  have sz: "getTempTokenStoreSize (snd (oauth_exchange (QString ''ab'') example_null)) = 0"
    by (simp add: post getTempTokenStoreSize_def Map_size_def)
  show ?thesis
    using falsy_payload_reported_as_not_found [OF h1 h2 h3 h4 h5 h6 h7 h8]
      h1 h2 h4 h5 h7 h8
    by (simp add: tok_ab sz exchange_failed_def)
qed

subsection \<open>Tokens are URL-safe\<close>

text \<open>
  C10. Whatever the payload, the token that \<^verbatim>\<open>generateTempToken\<close> makes from its 32
  random bytes is a string of 64 characters, all among \<open>0123456789abcdef\<close>. \<^verbatim>\<open>encodeURIComponent\<close> and \<^verbatim>\<open>decodeURIComponent\<close> leave it
  as it is, so the extra decoding step of the exchange route hands the issued token
  unaltered to \<^verbatim>\<open>exchangeTempToken\<close>.
\<close>

theorem token_is_url_safe:
  assumes "length randomBytes = 32"
    and "fst (generateTempToken randomBytes payload s) = Inr tok"
  shows "length tok = 64
       \<and> set tok \<subseteq> set ''0123456789abcdef''
       \<and> encodeURIComponent tok = tok
       \<and> decodeURIComponent tok = Some tok
       \<and> decode_code tok = tok
       \<and> snd (oauth_exchange (QString tok) s') = snd (exchangeTempToken tok s')"
proof -
  have tok: "tok = Buffer_toString_hex randomBytes"
    using assms(2) by (simp add: generateTempToken_def Let_def split: if_splits)
  have len: "length tok = 64" using assms(1) by (simp add: tok length_hex)
  have sub: "set tok \<subseteq> set ''0123456789abcdef''" unfolding tok by (rule set_hex)
  have un: "\<forall>c \<in> set tok. uriUnreserved c" and np: "CHR ''%'' \<notin> set tok"
    using sub hex_unreserved by blast+
  have dec: "decodeURIComponent tok = Some tok" using np by (rule decode_no_percent)
  then have dc: "decode_code tok = tok" by (simp add: decode_code_def)
  from len have "tok \<noteq> []" by auto
  then have "snd (oauth_exchange (QString tok) s') = snd (exchangeTempToken tok s')"
    by (simp add: oauth_exchange_def dc split: prod.splits sum.splits)
  with len sub encode_unreserved [OF un] dec dc show ?thesis by simp
qed

theorem token_is_url_safe_witness:
  "length (replicate 32 (0xAB :: 8 word)) = 32
   \<and> fst (generateTempToken (replicate 32 0xAB) example_payload (start 0))
       = Inr ''abababababababababababababababababababababababababababababababab''
   \<and> length ''abababababababababababababababababababababababababababababababab'' = 64
   \<and> encodeURIComponent ''abababababababababababababababababababababababababababababababab''
       = ''abababababababababababababababababababababababababababababababab''
   \<and> decode_code ''abababababababababababababababababababababababababababababababab''
       = ''abababababababababababababababababababababababababababababababab''"
proof -
  have h: "length (replicate 32 (0xAB :: 8 word)) = 32" by simp
  have v: "Buffer_toString_hex (replicate 32 0xAB)
       = ''abababababababababababababababababababababababababababababababab''"
    by code_simp
  have g: "fst (generateTempToken (replicate 32 0xAB) example_payload (start 0))
       = Inr ''abababababababababababababababababababababababababababababababab''"
    by (simp add: generateTempToken_def Let_def v start_def TOKEN_EXPIRY_def toISOString_throws_def)
  show ?thesis using token_is_url_safe [OF h g] h g by simp
qed

end
